theory Spec2Isabelle
  imports Main
begin

section \<open>Container service monitor (containersvcmon.go)\<close>

text \<open>
  The monitor parses its command line, builds a \<open>containersvc.Config\<close>, registers a
  handler for the stop signals and then keeps one container running until a stop signal
  arrives. The package \<open>containersvc\<close> (the runtime adapter) is not part of the file: its
  \<open>Start\<close> and \<open>Stop\<close> are modelled as calls whose outcomes the environment supplies, and
  its restart-policy type and constants are parameters of the model.

  Ways in which the process can end early: \<open>os.Exit\<close> with a status, or a run-time panic.
\<close>

datatype halt = Exit nat | Panic

subsection \<open>Strings\<close>

text \<open>
  Go strings are byte sequences, as \<open>string\<close> is here. \<open>strings.LastIndex\<close> and
  \<open>strings.Contains\<close> are only ever called with the one-byte separator \<open>":"\<close>, so the
  separator is a single \<open>char\<close>. \<open>LastIndex\<close> scans from the end and answers \<open>-1\<close> when
  the byte does not occur.
\<close>

fun LastIndex_from :: "string \<Rightarrow> char \<Rightarrow> nat \<Rightarrow> int" where
  "LastIndex_from s c 0 = - 1"
| "LastIndex_from s c (Suc i) = (if s ! i = c then int i else LastIndex_from s c i)"

definition LastIndex :: "string \<Rightarrow> char \<Rightarrow> int" where
  "LastIndex s c = LastIndex_from s c (length s)"

definition Contains :: "string \<Rightarrow> char \<Rightarrow> bool" where
  "Contains s c = (c \<in> set s)"

text \<open>
  The slice expressions \<open>s[:i]\<close> and \<open>s[i:]\<close> panic when the index is negative or
  beyond the length of the string.
\<close>

definition slice_to :: "string \<Rightarrow> int \<Rightarrow> halt + string" where
  "slice_to s i = (if 0 \<le> i \<and> i \<le> int (length s) then Inr (take (nat i) s) else Inl Panic)"

definition slice_from :: "string \<Rightarrow> int \<Rightarrow> halt + string" where
  "slice_from s i = (if 0 \<le> i \<and> i \<le> int (length s) then Inr (drop (nat i) s) else Inl Panic)"

subsection \<open>Flags and configuration\<close>

text \<open>
  The package-level flag variables after \<open>flag.Parse\<close> (the pointers returned by
  \<open>flag.Bool\<close> and \<open>flag.String\<close> as the values they point to). The type \<open>'rp\<close> stands
  for \<open>containersvc.RestartPolicyEnum\<close>.
\<close>

record 'rp gflags =
  ctrName :: string
  ports :: "string list"
  volDriver :: string
  vols :: "string list"
  bckgrnd :: bool
  restartPolicy :: 'rp
  autoRm :: bool
  log :: bool
  openStdin :: bool
  tty :: bool
  oneCtr :: bool

record 'rp Config =
  CtrName :: string
  PortMap :: "string \<rightharpoonup> string"
  VolumeDriver :: string
  Volumes :: "string list"
  Background :: bool
  RestartPolicy :: 'rp
  AutoRemove :: bool
  Log :: bool
  OpenStdin :: bool
  Tty :: bool
  OnlyOneContainerInstancePerImage :: bool

text \<open>
  The body of the loop over \<open>ports\<close> in \<open>configure\<close>: split at the last colon and store
  the pair in the map.
\<close>

definition addPort :: "(string \<rightharpoonup> string) \<Rightarrow> string \<Rightarrow> halt + (string \<rightharpoonup> string)" where
  "addPort portMap port =
     (let colSepIdx = LastIndex port CHR '':'' in
      case slice_to port colSepIdx of
        Inl e \<Rightarrow> Inl e
      | Inr hostPort \<Rightarrow>
          (case slice_from port (colSepIdx + 1) of
             Inl e \<Rightarrow> Inl e
           | Inr ctrPort \<Rightarrow> Inr (portMap(hostPort \<mapsto> ctrPort))))"

fun buildPortMap :: "(string \<rightharpoonup> string) \<Rightarrow> string list \<Rightarrow> halt + (string \<rightharpoonup> string)" where
  "buildPortMap portMap [] = Inr portMap"
| "buildPortMap portMap (port # rest) =
     (case addPort portMap port of
        Inl e \<Rightarrow> Inl e
      | Inr portMap' \<Rightarrow> buildPortMap portMap' rest)"

definition configure :: "'rp gflags \<Rightarrow> halt + 'rp Config" where
  "configure fl =
     (case buildPortMap Map.empty (ports fl) of
        Inl e \<Rightarrow> Inl e
      | Inr portMap \<Rightarrow>
          Inr \<lparr> CtrName = ctrName fl,
                PortMap = portMap,
                VolumeDriver = volDriver fl,
                Volumes = vols fl,
                Background = bckgrnd fl,
                RestartPolicy = restartPolicy fl,
                AutoRemove = autoRm fl,
                Log = log fl,
                OpenStdin = openStdin fl,
                Tty = tty fl,
                OnlyOneContainerInstancePerImage = oneCtr fl \<rparr>)"

subsection \<open>Log lines and observable actions\<close>

text \<open>
  The set of signals passed to \<open>signal.Notify\<close>.
\<close>

datatype signal = SIGINT | SIGQUIT | SIGTERM

text \<open>
  The unconditional \<open>glog\<close> lines of the file, with their arguments (the lines under
  \<open>glog.V(2)\<close> are left out).
\<close>

datatype 'rp logline =
    InvalidFormat string string string
  | InvalidRestartPolicy 'rp string string
  | MandatoryArgsNotProvided
  | ErrorAccessing string string
  | ConfigLine "'rp Config"
  | FailedToStart string string
  | ContainerExited string
  | StoppingMonitoring string
  | ReceivedStopSignal signal
  | FailedToStop string

text \<open>
  What the process does, in order: log lines, the usage message written by \<open>usage()\<close>,
  the calls of the adapter, the assignment \<open>stopMonitoring = true\<close> and the call
  \<open>time.Sleep(time.Second * 2)\<close>.
\<close>

datatype 'rp event =
    Errorf "'rp logline"
  | Infof "'rp logline"
  | UsageMsg
  | StartCall string string "'rp Config"
  | StopCall string string bool
  | SetStopMonitoring
  | Sleep nat

subsection \<open>Validation of the command line\<close>

text \<open>
  A visited \<open>flag.Flag\<close>: its name and its usage string. The constants of
  \<open>containersvc.RestartPolicyEnum\<close> are parameters.
\<close>

record Flag =
  Name :: string
  Usage :: string

record 'rp RestartPolicies =
  No :: 'rp
  OnFailure :: 'rp
  UnlessStopped :: 'rp
  Always :: 'rp

text \<open>
  The loops of \<open>validateCmdLnFlag\<close> over \<open>ports\<close> and over \<open>vols\<close> have the same
  body: the first entry without a colon is logged and the process exits with 255.
\<close>

fun checkEntries :: "Flag \<Rightarrow> string list \<Rightarrow> 'rp event list \<times> (halt + unit)" where
  "checkEntries fl [] = ([], Inr ())"
| "checkEntries fl (entry # rest) =
     (if \<not> Contains entry CHR '':''
      then ([Errorf (InvalidFormat entry (Name fl) (Usage fl))], Inl (Exit 255))
      else checkEntries fl rest)"

definition validateCmdLnFlag ::
  "'rp RestartPolicies \<Rightarrow> 'rp gflags \<Rightarrow> Flag \<Rightarrow> 'rp event list \<times> (halt + unit)" where
  "validateCmdLnFlag rp gf fl =
     (if Name fl = ''port'' then checkEntries fl (ports gf)
      else if Name fl = ''volume'' then checkEntries fl (vols gf)
      else if Name fl = ''restart-policy'' then
        (if \<not> (restartPolicy gf = No rp \<or> restartPolicy gf = OnFailure rp \<or>
                restartPolicy gf = UnlessStopped rp \<or> restartPolicy gf = Always rp)
         then ([Errorf (InvalidRestartPolicy (restartPolicy gf) (Name fl) (Usage fl))],
               Inl (Exit 255))
         else ([], Inr ()))
      else ([], Inr ()))"

text \<open>
  \<open>flag.Visit\<close> calls the function on every flag that was set; \<open>visited\<close> is that
  list of flags, in the order of the visit.
\<close>

fun validateCmdLnFlags ::
  "'rp RestartPolicies \<Rightarrow> 'rp gflags \<Rightarrow> Flag list \<Rightarrow> 'rp event list \<times> (halt + unit)" where
  "validateCmdLnFlags rp gf [] = ([], Inr ())"
| "validateCmdLnFlags rp gf (fl # rest) =
     (case validateCmdLnFlag rp gf fl of
        (evs, Inl h) \<Rightarrow> (evs, Inl h)
      | (evs, Inr _) \<Rightarrow>
          (case validateCmdLnFlags rp gf rest of (evs', r) \<Rightarrow> (evs @ evs', r)))"

text \<open>
  \<open>os.Stat\<close> is the function \<open>stat\<close>: \<open>None\<close> when the call succeeds, the error
  otherwise.
\<close>

definition validateCmdLnArgs ::
  "(string \<Rightarrow> string option) \<Rightarrow> string \<Rightarrow> 'rp event list \<times> (halt + unit)" where
  "validateCmdLnArgs stat imgPath =
     (case stat imgPath of
        Some err \<Rightarrow> ([Errorf (ErrorAccessing imgPath err), UsageMsg], Inl (Exit 255))
      | None \<Rightarrow> ([], Inr ()))"

definition validateCmdLnArgsFlags ::
  "'rp RestartPolicies \<Rightarrow> (string \<Rightarrow> string option) \<Rightarrow> 'rp gflags \<Rightarrow> Flag list \<Rightarrow> string \<Rightarrow>
   'rp event list \<times> (halt + unit)" where
  "validateCmdLnArgsFlags rp stat gf visited imgPath =
     (case validateCmdLnArgs stat imgPath of
        (evs, Inl h) \<Rightarrow> (evs, Inl h)
      | (evs, Inr _) \<Rightarrow>
          (case validateCmdLnFlags rp gf visited of (evs', r) \<Rightarrow> (evs @ evs', r)))"

definition parseCmdLnArgs ::
  "'rp RestartPolicies \<Rightarrow> (string \<Rightarrow> string option) \<Rightarrow> 'rp gflags \<Rightarrow> Flag list \<Rightarrow> string list \<Rightarrow>
   'rp event list \<times> (halt + string \<times> string)" where
  "parseCmdLnArgs rp stat gf visited args =
     (if length args \<noteq> 2
      then ([Errorf MandatoryArgsNotProvided, UsageMsg], Inl (Exit 255))
      else
        (let imgPath = args ! 0; img = args ! 1 in
         case validateCmdLnArgsFlags rp stat gf visited imgPath of
           (evs, Inl h) \<Rightarrow> (evs, Inl h)
         | (evs, Inr _) \<Rightarrow> (evs, Inr (imgPath, img))))"

subsection \<open>The run loop and the signal handler\<close>

text \<open>
  The run loop (the main goroutine) and \<open>stopSigHandler\<close> (a second goroutine) share the
  variable \<open>stopMonitoring\<close>. Each goroutine is a small state machine; a step of the
  program is a step of one of them or the delivery of a signal, and a schedule lists the
  steps in the order in which they happen. Reading the flag and acting on the value read
  are separate steps, so the other goroutine can run in between.

  Places of the main goroutine from the call of \<open>runLoop\<close> on, when the handler is
  already running: at the entry of \<open>runLoop\<close>, before \<open>configure()\<close>; at the loop condition; about to call \<open>Start\<close>;
  inside \<open>Start\<close>; at the inner \<open>if\<close>; about to log and sleep; inside \<open>time.Sleep\<close>;
  back in \<open>main\<close> after the loop; and ended, by the return of \<open>main\<close> or by a panic
  (the process is gone).
\<close>

datatype loop_pc =
  Entering | LoopCond | CallStart | InStart | RestartCond | CallSleep | InSleep | Returned
  | MainExit

text \<open>
  Places of the handler: waiting on the channel, about to set the flag, about to call
  \<open>Stop\<close>, inside \<open>Stop\<close>, finished.
\<close>

datatype handler_pc = AwaitSignal | SetFlag | CallStop | InStop | HandlerDone

text \<open>
  \<open>startResults\<close> and \<open>stopResults\<close> are the error results with which the coming calls
  of \<open>containersvc.Start\<close> and \<open>containersvc.Stop\<close> return (\<open>None\<close> is \<open>nil\<close>); a call
  for which no result is left does not return. \<open>sigChan\<close> is the buffered channel of
  capacity one. \<open>cfg\<close> is the local variable of \<open>runLoop\<close>, unassigned until
  \<open>configure()\<close> has returned. \<open>exitStatus\<close> tells how the process ended, once it has.
\<close>

record 'rp state =
  stopMonitoring :: bool
  loop_pc :: loop_pc
  handler_pc :: handler_pc
  sigChan :: "signal list"
  startResults :: "string option list"
  stopResults :: "string option list"
  cfg :: "'rp Config option"
  exitStatus :: "halt option"
  trace :: "'rp event list"

text \<open>
  What the goroutines work with and never change: the arguments of \<open>runLoop\<close> and the
  flag variables (\<open>*ctrName\<close> among them).
\<close>

record 'rp ctx =
  imgPath :: string
  img :: string
  flags :: "'rp gflags"

definition loop_step :: "'rp ctx \<Rightarrow> 'rp state \<Rightarrow> 'rp state" where
  "loop_step c s =
     (case loop_pc s of
        Entering \<Rightarrow>
          (case configure (flags c) of
             Inl h \<Rightarrow> s\<lparr>loop_pc := MainExit, exitStatus := Some h\<rparr>
           | Inr conf \<Rightarrow>
               s\<lparr>loop_pc := LoopCond, cfg := Some conf,
                 trace := trace s @ [Infof (ConfigLine conf)]\<rparr>)
      | LoopCond \<Rightarrow>
          (if \<not> stopMonitoring s then s\<lparr>loop_pc := CallStart\<rparr>
           else s\<lparr>loop_pc := Returned,
                  trace := trace s @ [Infof (StoppingMonitoring (img c))]\<rparr>)
      | CallStart \<Rightarrow>
          (case cfg s of
             None \<Rightarrow> s
           | Some conf \<Rightarrow>
               s\<lparr>loop_pc := InStart,
                 trace := trace s @ [StartCall (imgPath c) (img c) conf]\<rparr>)
      | InStart \<Rightarrow>
          (case startResults s of
             [] \<Rightarrow> s
           | r # rest \<Rightarrow>
               s\<lparr>loop_pc := RestartCond, startResults := rest,
                 trace := trace s @
                   (case r of None \<Rightarrow> [] | Some err \<Rightarrow> [Errorf (FailedToStart (img c) err)])\<rparr>)
      | RestartCond \<Rightarrow>
          (if \<not> stopMonitoring s then s\<lparr>loop_pc := CallSleep\<rparr>
           else s\<lparr>loop_pc := LoopCond\<rparr>)
      | CallSleep \<Rightarrow>
          s\<lparr>loop_pc := InSleep,
            trace := trace s @ [Infof (ContainerExited (img c)), Sleep 2]\<rparr>
      | InSleep \<Rightarrow> s\<lparr>loop_pc := LoopCond\<rparr>
      | Returned \<Rightarrow> s\<lparr>loop_pc := MainExit, exitStatus := Some (Exit 0)\<rparr>
      | MainExit \<Rightarrow> s)"

definition handler_step :: "'rp ctx \<Rightarrow> 'rp state \<Rightarrow> 'rp state" where
  "handler_step c s =
     (case handler_pc s of
        AwaitSignal \<Rightarrow>
          (case sigChan s of
             [] \<Rightarrow> s
           | sig # rest \<Rightarrow>
               s\<lparr>handler_pc := SetFlag, sigChan := rest,
                 trace := trace s @ [Infof (ReceivedStopSignal sig)]\<rparr>)
      | SetFlag \<Rightarrow>
          s\<lparr>stopMonitoring := True, handler_pc := CallStop,
            trace := trace s @ [SetStopMonitoring]\<rparr>
      | CallStop \<Rightarrow>
          s\<lparr>handler_pc := InStop,
            trace := trace s @ [StopCall (img c) (ctrName (flags c)) False]\<rparr>
      | InStop \<Rightarrow>
          (case stopResults s of
             [] \<Rightarrow> s
           | r # rest \<Rightarrow>
               s\<lparr>handler_pc := HandlerDone, stopResults := rest,
                 trace := trace s @
                   (case r of None \<Rightarrow> [] | Some err \<Rightarrow> [Errorf (FailedToStop (img c))])\<rparr>)
      | HandlerDone \<Rightarrow> s)"

text \<open>
  \<open>signal.Notify\<close> sends without blocking: a signal that finds the buffer full is dropped.
\<close>

definition deliver :: "signal \<Rightarrow> 'rp state \<Rightarrow> 'rp state" where
  "deliver sig s = (if length (sigChan s) < 1 then s\<lparr>sigChan := sigChan s @ [sig]\<rparr> else s)"

datatype action = Loop | Handler | Deliver signal

text \<open>
  Once the main goroutine has ended the process is gone and nothing happens any more.
\<close>

definition step :: "'rp ctx \<Rightarrow> action \<Rightarrow> 'rp state \<Rightarrow> 'rp state" where
  "step c a s =
     (if loop_pc s = MainExit then s
      else case a of
        Loop \<Rightarrow> loop_step c s
      | Handler \<Rightarrow> handler_step c s
      | Deliver sig \<Rightarrow> deliver sig s)"

fun run :: "'rp ctx \<Rightarrow> action list \<Rightarrow> 'rp state \<Rightarrow> 'rp state" where
  "run c [] s = s"
| "run c (a # sched) s = run c sched (step c a s)"

text \<open>
  \<open>main\<close> after \<open>flag.Parse\<close>, up to the call of \<open>runLoop\<close>: the positional arguments
  are parsed and validated and the handler is registered.
\<close>

definition boot ::
  "'rp RestartPolicies \<Rightarrow> (string \<Rightarrow> string option) \<Rightarrow> 'rp gflags \<Rightarrow> Flag list \<Rightarrow> string list \<Rightarrow>
   'rp event list \<times> (halt + 'rp ctx)" where
  "boot rp stat gf visited args =
     (case parseCmdLnArgs rp stat gf visited args of
        (evs, Inl h) \<Rightarrow> (evs, Inl h)
      | (evs, Inr (pth, im)) \<Rightarrow> (evs, Inr \<lparr> imgPath = pth, img = im, flags = gf \<rparr>))"

text \<open>
  The state in which the two goroutines start: the handler waits for a signal, the main
  goroutine enters \<open>runLoop\<close>, the flag is unset.
\<close>

definition init_state ::
  "'rp event list \<Rightarrow> string option list \<Rightarrow> string option list \<Rightarrow> 'rp state" where
  "init_state evs starts stops =
     \<lparr> stopMonitoring = False, loop_pc = Entering, handler_pc = AwaitSignal, sigChan = [],
       startResults = starts, stopResults = stops, cfg = None, exitStatus = None,
       trace = evs \<rparr>"

text \<open>
  The whole program under a schedule: everything it did, and how it ended (\<open>None\<close> while
  it is still running; \<open>main\<close> returning is exit status 0).
\<close>

definition main ::
  "'rp RestartPolicies \<Rightarrow> (string \<Rightarrow> string option) \<Rightarrow> 'rp gflags \<Rightarrow> Flag list \<Rightarrow> string list \<Rightarrow>
   string option list \<Rightarrow> string option list \<Rightarrow> action list \<Rightarrow> 'rp event list \<times> halt option" where
  "main rp stat gf visited args starts stops sched =
     (case boot rp stat gf visited args of
        (evs, Inl h) \<Rightarrow> (evs, Some h)
      | (evs, Inr c) \<Rightarrow>
          (let s = run c sched (init_state evs starts stops)
           in (trace s, exitStatus s)))"

subsection \<open>Observations on traces\<close>

text \<open>
  The calls of \<open>Start\<close>, the backoff sleeps, and what the handler does to stop the
  container (the write of the flag and the call of \<open>Stop\<close>), as they occur in a trace.
\<close>

fun isStart :: "'rp event \<Rightarrow> bool" where
  "isStart (StartCall _ _ _) = True"
| "isStart _ = False"

fun isSleep :: "'rp event \<Rightarrow> bool" where
  "isSleep (Sleep _) = True"
| "isSleep _ = False"

fun isHandlerEvent :: "'rp event \<Rightarrow> bool" where
  "isHandlerEvent SetStopMonitoring = True"
| "isHandlerEvent (StopCall _ _ _) = True"
| "isHandlerEvent _ = False"

definition handler_events :: "'rp event list \<Rightarrow> 'rp event list" where
  "handler_events tr = filter isHandlerEvent tr"


subsection \<open>Invariants and measures\<close>

text \<open>
  The flag is set and the loop has no stale reading of it: it is not between a read of
  the flag that gave \<open>false\<close> and the action taken on that reading.
\<close>

definition stop_seen :: "'rp state \<Rightarrow> bool" where
  "stop_seen s =
     (stopMonitoring s \<and> loop_pc s \<noteq> CallStart \<and> loop_pc s \<noteq> CallSleep)"

text \<open>
  Moreover, if the loop is inside \<open>Start\<close>, the call is going to return.
\<close>

definition leaving :: "'rp state \<Rightarrow> bool" where
  "leaving s = (stop_seen s \<and> (loop_pc s = InStart \<longrightarrow> startResults s \<noteq> []))"

text \<open>
  An upper bound on the number of steps the loop needs to leave once the flag is seen.
\<close>

fun exit_dist :: "loop_pc \<Rightarrow> nat" where
  "exit_dist Returned = 0"
| "exit_dist MainExit = 0"
| "exit_dist LoopCond = 1"
| "exit_dist Entering = 2"
| "exit_dist RestartCond = 2"
| "exit_dist InSleep = 2"
| "exit_dist InStart = 3"
| "exit_dist CallStart = 3"
| "exit_dist CallSleep = 3"

text \<open>
  How far the handler has come, and what it has done by then.
\<close>

fun handler_rank :: "handler_pc \<Rightarrow> nat" where
  "handler_rank AwaitSignal = 0"
| "handler_rank SetFlag = 1"
| "handler_rank CallStop = 2"
| "handler_rank InStop = 3"
| "handler_rank HandlerDone = 3"

fun handler_done :: "'rp ctx \<Rightarrow> handler_pc \<Rightarrow> 'rp event list" where
  "handler_done c AwaitSignal = []"
| "handler_done c SetFlag = []"
| "handler_done c CallStop = [SetStopMonitoring]"
| "handler_done c InStop = [SetStopMonitoring, StopCall (img c) (ctrName (flags c)) False]"
| "handler_done c HandlerDone = [SetStopMonitoring, StopCall (img c) (ctrName (flags c)) False]"

text \<open>
  What holds of the handler in every state the program reaches: the trace shows what it
  has done so far, and the flag is set exactly when the handler has passed its
  assignment.
\<close>

definition handler_inv :: "'rp ctx \<Rightarrow> 'rp state \<Rightarrow> bool" where
  "handler_inv c s =
     (handler_events (trace s) = handler_done c (handler_pc s) \<and>
      stopMonitoring s = (2 \<le> handler_rank (handler_pc s)))"

text \<open>
  The process has an exit status exactly when the main goroutine has ended.
\<close>

definition status_inv :: "'rp state \<Rightarrow> bool" where
  "status_inv s = ((exitStatus s = None) = (loop_pc s \<noteq> MainExit))"

text \<open>
  The handler has a signal to work on or has already taken one; and the state in which no
  signal has arrived and none is pending.
\<close>

definition armed :: "'rp state \<Rightarrow> bool" where
  "armed s = (handler_pc s \<noteq> AwaitSignal \<or> sigChan s \<noteq> [])"


subsection \<open>Input errors\<close>

text \<open>
  A flag error: a visited flag whose check in \<open>validateCmdLnFlag\<close> fails, that is a
  \<open>port\<close> or \<open>volume\<close> flag with an entry without a colon, or a \<open>restart-policy\<close> flag
  with a value that is none of the four constants.
\<close>

definition flag_error :: "'rp RestartPolicies \<Rightarrow> 'rp gflags \<Rightarrow> Flag list \<Rightarrow> bool" where
  "flag_error rp gf visited =
     (\<exists>fl \<in> set visited.
        (Name fl = ''port'' \<and> (\<exists>p \<in> set (ports gf). CHR '':'' \<notin> set p)) \<or>
        (Name fl = ''volume'' \<and> (\<exists>p \<in> set (vols gf). CHR '':'' \<notin> set p)) \<or>
        (Name fl = ''restart-policy'' \<and>
           restartPolicy gf \<notin> {No rp, OnFailure rp, UnlessStopped rp, Always rp}))"

text \<open>
  The error lines of \<open>validateCmdLnFlag\<close>: they carry the name and the usage string of the
  flag that failed.
\<close>

definition flag_msg :: "'rp gflags \<Rightarrow> Flag \<Rightarrow> 'rp logline \<Rightarrow> bool" where
  "flag_msg gf fl m =
     (case m of
        InvalidFormat entry name usage \<Rightarrow> name = Name fl \<and> usage = Usage fl
      | InvalidRestartPolicy policy name usage \<Rightarrow>
          policy = restartPolicy gf \<and> name = Name fl \<and> usage = Usage fl
      | _ \<Rightarrow> False)"

subsection \<open>Sample inputs\<close>

text \<open>
  Concrete command lines on which the theorems below are evaluated. The restart policy is
  a string here, with sample values for the four constants.
\<close>

definition policies0 :: "string RestartPolicies" where
  "policies0 = \<lparr> No = ''never'', OnFailure = ''on-failure'',
                  UnlessStopped = ''unless-stopped'', Always = ''always'' \<rparr>"

definition gf0 :: "string gflags" where
  "gf0 = \<lparr> ctrName = ''web'', ports = [''80:8080'', ''443:8443'', ''80:9090''],
           volDriver = [], vols = [], bckgrnd = False, restartPolicy = ''never'',
           autoRm = True, log = True, openStdin = True, tty = True, oneCtr = True \<rparr>"

definition portFlag :: Flag where
  "portFlag = \<lparr> Name = ''port'', Usage = ''[host_ip:]host_port:container_port'' \<rparr>"

definition policyFlag :: Flag where
  "policyFlag = \<lparr> Name = ''restart-policy'', Usage = ''Restart policy'' \<rparr>"

definition gf1 :: "string gflags" where
  "gf1 = gf0 \<lparr> ports := [''8080''] \<rparr>"

definition gf2 :: "string gflags" where
  "gf2 = gf0 \<lparr> restartPolicy := ''sometimes'' \<rparr>"

definition statOk :: "string \<Rightarrow> string option" where
  "statOk p = None"

definition args0 :: "string list" where
  "args0 = [''/img.tar'', ''img'']"

definition cfg0 :: "string Config" where
  "cfg0 = \<lparr> CtrName = ''web'',
            PortMap = Map.empty(''80'' \<mapsto> ''8080'', ''443'' \<mapsto> ''8443'', ''80'' \<mapsto> ''9090''),
            VolumeDriver = [], Volumes = [], Background = False, RestartPolicy = ''never'',
            AutoRemove = True, Log = True, OpenStdin = True, Tty = True,
            OnlyOneContainerInstancePerImage = True \<rparr>"

definition c0 :: "string ctx" where
  "c0 = \<lparr> imgPath = ''/img.tar'', img = ''img'', flags = gf0 \<rparr>"

text \<open>
  A state in which the handler has set the flag while the loop waits for \<open>Start\<close> to
  return, and one in which \<open>Start\<close> is about to return an error.
\<close>

definition stopping :: "string state" where
  "stopping = \<lparr> stopMonitoring = True, loop_pc = InStart, handler_pc = CallStop, sigChan = [],
       startResults = [None], stopResults = [None], cfg = Some cfg0, exitStatus = None,
       trace = [Infof (ConfigLine cfg0), StartCall ''/img.tar'' ''img'' cfg0, Infof (ReceivedStopSignal SIGTERM),
                SetStopMonitoring] \<rparr>"


section \<open>Properties of the configuration builder\<close>

lemma LastIndex_from_absent:
  "c \<notin> set s \<Longrightarrow> n \<le> length s \<Longrightarrow> LastIndex_from s c n = - 1"
  by (induction n) auto

lemma LastIndex_from_split:
  "c \<notin> set v \<Longrightarrow> m \<le> length v \<Longrightarrow>
   LastIndex_from (k @ c # v) c (Suc (length k + m)) = int (length k)"
proof (induction m)
  case 0
  then show ?case by simp
next
  case (Suc m)
  have "(k @ c # v) ! Suc (length k + m) = v ! m"
    by (simp add: nth_append)
  moreover have "v ! m \<in> set v"
    using Suc.prems by simp
  ultimately have "(k @ c # v) ! Suc (length k + m) \<noteq> c"
    using Suc.prems by auto
  then show ?case
    using Suc by simp
qed

lemma LastIndex_split:
  "c \<notin> set v \<Longrightarrow> LastIndex (k @ c # v) c = int (length k)"
  using LastIndex_from_split [of c v "length v" k] by (simp add: LastIndex_def)

lemma LastIndex_absent:
  "c \<notin> set s \<Longrightarrow> LastIndex s c = - 1"
  by (simp add: LastIndex_def LastIndex_from_absent)

lemma addPort_split:
  assumes "CHR '':'' \<notin> set v"
  shows "addPort m (k @ CHR '':'' # v) = Inr (m(k \<mapsto> v))"
proof -
  have "nat (int (length k) + 1) = Suc (length k)"
    by simp
  then show ?thesis
    using assms
    by (simp add: addPort_def Let_def LastIndex_split slice_to_def slice_from_def)
qed

lemma addPort_no_colon:
  "CHR '':'' \<notin> set port \<Longrightarrow> addPort m port = Inl Panic"
  by (simp add: addPort_def Let_def LastIndex_absent slice_to_def)

lemma addPort_colon:
  assumes "CHR '':'' \<in> set port"
  shows "\<exists>k v. port = k @ CHR '':'' # v \<and> CHR '':'' \<notin> set v \<and>
           addPort m port = Inr (m(k \<mapsto> v))"
proof -
  from assms obtain k v where "port = k @ CHR '':'' # v" "CHR '':'' \<notin> set v"
    by (auto dest: split_list_last)
  then show ?thesis
    using addPort_split by blast
qed

lemma buildPortMap_append:
  "buildPortMap m (xs @ ys) =
     (case buildPortMap m xs of Inl e \<Rightarrow> Inl e | Inr m' \<Rightarrow> buildPortMap m' ys)"
  by (induction xs arbitrary: m) (auto split: sum.splits)

lemma buildPortMap_total:
  "\<forall>p \<in> set xs. CHR '':'' \<in> set p \<Longrightarrow> \<exists>m'. buildPortMap m xs = Inr m'"
proof (induction xs arbitrary: m)
  case Nil
  then show ?case by simp
next
  case (Cons p xs)
  then obtain k v where "addPort m p = Inr (m(k \<mapsto> v))"
    using addPort_colon [of p m] by auto
  then show ?case
    using Cons by simp
qed

lemma buildPortMap_other_keys:
  assumes "\<forall>q \<in> set xs. \<forall>v'. CHR '':'' \<notin> set v' \<longrightarrow> q \<noteq> k @ CHR '':'' # v'"
    and "buildPortMap m xs = Inr m'"
  shows "m' k = m k"
  using assms
proof (induction xs arbitrary: m)
  case Nil
  then show ?case by simp
next
  case (Cons q xs)
  show ?case
  proof (cases "CHR '':'' \<in> set q")
    case True
    then obtain k' v' where q: "q = k' @ CHR '':'' # v'" "CHR '':'' \<notin> set v'"
      and a: "addPort m q = Inr (m(k' \<mapsto> v'))"
      using addPort_colon [of q m] by auto
    from q Cons.prems(1) have "k' \<noteq> k"
      by auto
    have "\<forall>q \<in> set xs. \<forall>v'. CHR '':'' \<notin> set v' \<longrightarrow> q \<noteq> k @ CHR '':'' # v'"
      using Cons.prems(1) by simp
    moreover have "buildPortMap (m(k' \<mapsto> v')) xs = Inr m'"
      using Cons.prems(2) a by simp
    ultimately have "m' k = (m(k' \<mapsto> v')) k"
      by (intro Cons.IH)
    with \<open>k' \<noteq> k\<close> show ?thesis
      by simp
  next
    case False
    then show ?thesis
      using Cons.prems(2) by (simp add: addPort_no_colon)
  qed
qed

lemma checkEntries_ok:
  "\<forall>p \<in> set xs. CHR '':'' \<in> set p \<Longrightarrow> checkEntries fl xs = ([], Inr ())"
  by (induction xs) (auto simp: Contains_def)



text \<open>
  Claim C10. When several port entries have the same text before their last colon, the
  port map built by \<open>configure\<close> holds for that key the container port of the last of
  them: whatever stands before the entry \<open>k:v\<close> in the list, if no later entry has the
  key \<open>k\<close> then the map sends \<open>k\<close> to \<open>v\<close>. Neither the validation of the flag nor
  \<open>configure\<close> rejects the duplicates.
\<close>

theorem last_duplicate_port_wins:
  assumes "\<forall>p \<in> set (ports gf). CHR '':'' \<in> set p"
    and "ports gf = pre @ (k @ CHR '':'' # v) # post"
    and "CHR '':'' \<notin> set v"
    and "\<forall>q \<in> set post. \<forall>v'. CHR '':'' \<notin> set v' \<longrightarrow> q \<noteq> k @ CHR '':'' # v'"
  shows "checkEntries fl (ports gf) = ([], Inr ()) \<and>
         (\<exists>conf. configure gf = Inr conf \<and> PortMap conf k = Some v)"
proof -
  obtain m1 where m1: "buildPortMap Map.empty pre = Inr m1"
    using assms(1,2) buildPortMap_total [of pre Map.empty] by auto
  obtain m2 where m2: "buildPortMap (m1(k \<mapsto> v)) post = Inr m2"
    using assms(1,2) buildPortMap_total [of post "m1(k \<mapsto> v)"] by auto
  have "m2 k = Some v"
    using buildPortMap_other_keys [OF assms(4) m2] by simp
  moreover have "buildPortMap Map.empty (ports gf) = Inr m2"
    using m1 m2 assms(2,3) by (simp add: buildPortMap_append addPort_split)
  ultimately have "\<exists>conf. configure gf = Inr conf \<and> PortMap conf k = Some v"
    by (simp add: configure_def)
  then show ?thesis
    using checkEntries_ok [OF assms(1)] by simp
qed

theorem last_duplicate_port_wins_witness:
  "list_all (\<lambda>p. CHR '':'' \<in> set p) (ports gf0) \<and>
   ports gf0 = [''80:8080'', ''443:8443''] @ (''80'' @ CHR '':'' # ''9090'') # [] \<and>
   CHR '':'' \<notin> set ''9090'' \<and>
   checkEntries portFlag (ports gf0) = ([], Inr ()) \<and>
   (\<exists>conf. configure gf0 = Inr conf \<and> PortMap conf ''80'' = Some ''9090'')"
  using last_duplicate_port_wins [of gf0 "[''80:8080'', ''443:8443'']" "''80''" "''9090''" "[]"
      portFlag]
  by (simp add: gf0_def)

section \<open>Properties of the validation\<close>

lemma checkEntries_cases:
  "checkEntries fl xs = ([], Inr ()) \<and> (\<forall>p \<in> set xs. CHR '':'' \<in> set p) \<or>
   (\<exists>e \<in> set xs. CHR '':'' \<notin> set e \<and>
      checkEntries fl xs = ([Errorf (InvalidFormat e (Name fl) (Usage fl))], Inl (Exit 255)))"
  by (induction xs) (auto simp: Contains_def)

lemma validateCmdLnFlag_cases:
  "validateCmdLnFlag rp gf fl = ([], Inr ()) \<or>
   (\<exists>m. validateCmdLnFlag rp gf fl = ([Errorf m], Inl (Exit 255)) \<and> flag_msg gf fl m)"
  using checkEntries_cases [of fl "ports gf"] checkEntries_cases [of fl "vols gf"]
  by (auto simp: validateCmdLnFlag_def flag_msg_def)


lemma validateCmdLnFlags_bad:
  "fl \<in> set visited \<Longrightarrow> validateCmdLnFlag rp gf fl \<noteq> ([], Inr ()) \<Longrightarrow>
   \<exists>fl' \<in> set visited. \<exists>m.
      validateCmdLnFlags rp gf visited = ([Errorf m], Inl (Exit 255)) \<and> flag_msg gf fl' m"
proof (induction visited)
  case Nil
  then show ?case by simp
next
  case (Cons a rest)
  show ?case
  proof (cases "validateCmdLnFlag rp gf a = ([], Inr ())")
    case True
    with Cons.prems have "fl \<in> set rest"
      by auto
    from Cons.IH [OF this Cons.prems(2)] obtain fl' m where
      "fl' \<in> set rest" "validateCmdLnFlags rp gf rest = ([Errorf m], Inl (Exit 255))"
      "flag_msg gf fl' m"
      by blast
    then show ?thesis
      using True by (intro bexI [of _ fl'] exI [of _ m]) simp_all
  next
    case False
    with validateCmdLnFlag_cases [of rp gf a] obtain m where
      "validateCmdLnFlag rp gf a = ([Errorf m], Inl (Exit 255))" "flag_msg gf a m"
      by blast
    then show ?thesis
      by (intro bexI [of _ a] exI [of _ m]) simp_all
  qed
qed


lemma checkEntries_bad:
  "p \<in> set xs \<Longrightarrow> CHR '':'' \<notin> set p \<Longrightarrow> checkEntries fl xs \<noteq> ([], Inr ())"
  by (induction xs) (auto simp: Contains_def)

lemma bad_port_flag:
  "Name fl = ''port'' \<Longrightarrow> p \<in> set (ports gf) \<Longrightarrow> CHR '':'' \<notin> set p \<Longrightarrow>
   validateCmdLnFlag rp gf fl \<noteq> ([], Inr ())"
  by (simp add: validateCmdLnFlag_def checkEntries_bad)

lemma bad_volume_flag:
  "Name fl = ''volume'' \<Longrightarrow> p \<in> set (vols gf) \<Longrightarrow> CHR '':'' \<notin> set p \<Longrightarrow>
   validateCmdLnFlag rp gf fl \<noteq> ([], Inr ())"
  by (simp add: validateCmdLnFlag_def checkEntries_bad)

lemma bad_policy_flag:
  "Name fl = ''restart-policy'' \<Longrightarrow>
   restartPolicy gf \<notin> {No rp, OnFailure rp, UnlessStopped rp, Always rp} \<Longrightarrow>
   validateCmdLnFlag rp gf fl \<noteq> ([], Inr ())"
  by (simp add: validateCmdLnFlag_def)

lemma flag_error_exits:
  assumes "flag_error rp gf visited"
  shows "\<exists>fl \<in> set visited. \<exists>m.
      validateCmdLnFlags rp gf visited = ([Errorf m], Inl (Exit 255)) \<and> flag_msg gf fl m"
proof -
  from assms obtain fl where fl: "fl \<in> set visited"
    and bad: "(Name fl = ''port'' \<and> (\<exists>p \<in> set (ports gf). CHR '':'' \<notin> set p)) \<or>
        (Name fl = ''volume'' \<and> (\<exists>p \<in> set (vols gf). CHR '':'' \<notin> set p)) \<or>
        (Name fl = ''restart-policy'' \<and>
           restartPolicy gf \<notin> {No rp, OnFailure rp, UnlessStopped rp, Always rp})"
    unfolding flag_error_def by blast
  from bad have "validateCmdLnFlag rp gf fl \<noteq> ([], Inr ())"
  proof (elim disjE conjE bexE)
    fix p assume "Name fl = ''port''" "p \<in> set (ports gf)" "CHR '':'' \<notin> set p"
    then show ?thesis by (rule bad_port_flag)
  next
    fix p assume "Name fl = ''volume''" "p \<in> set (vols gf)" "CHR '':'' \<notin> set p"
    then show ?thesis by (rule bad_volume_flag)
  next
    assume "Name fl = ''restart-policy''"
      "restartPolicy gf \<notin> {No rp, OnFailure rp, UnlessStopped rp, Always rp}"
    then show ?thesis by (rule bad_policy_flag)
  qed
  with fl show ?thesis
    by (rule validateCmdLnFlags_bad)
qed


lemma parse_wrong_count:
  "length args \<noteq> 2 \<Longrightarrow>
   parseCmdLnArgs rp stat gf visited args =
     ([Errorf MandatoryArgsNotProvided, UsageMsg], Inl (Exit 255))"
  by (simp add: parseCmdLnArgs_def)

lemma parse_bad_path:
  "length args = 2 \<Longrightarrow> stat (args ! 0) = Some err \<Longrightarrow>
   parseCmdLnArgs rp stat gf visited args =
     ([Errorf (ErrorAccessing (args ! 0) err), UsageMsg], Inl (Exit 255))"
  by (simp add: parseCmdLnArgs_def validateCmdLnArgsFlags_def validateCmdLnArgs_def Let_def)

lemma parse_flags:
  "length args = 2 \<Longrightarrow> stat (args ! 0) = None \<Longrightarrow>
   parseCmdLnArgs rp stat gf visited args =
     (case validateCmdLnFlags rp gf visited of
        (evs, Inl h) \<Rightarrow> (evs, Inl h)
      | (evs, Inr _) \<Rightarrow> (evs, Inr (args ! 0, args ! 1)))"
  by (simp add: parseCmdLnArgs_def validateCmdLnArgsFlags_def validateCmdLnArgs_def Let_def
      split: prod.splits sum.splits)

lemma main_exit:
  "parseCmdLnArgs rp stat gf visited args = (evs, Inl h) \<Longrightarrow>
   main rp stat gf visited args starts stops sched = (evs, Some h)"
  by (simp add: main_def boot_def)

lemma input_cases:
  obtains "length args \<noteq> 2"
  | err where "length args = 2" "stat (args ! 0) = Some err"
  | "length args = 2" "stat (args ! 0) = None"
  by (cases "stat (args ! 0)") blast+

text \<open>
  Claim C8. With a number of positional arguments other than two the program logs the
  error, prints the usage message and exits with status 255. This is all it ever does,
  under every schedule and whatever the adapter would answer: neither \<open>Start\<close> nor
  \<open>Stop\<close> is called.
\<close>

theorem wrong_argument_count_exits_255:
  "length args \<noteq> 2 \<Longrightarrow>
   main rp stat gf visited args starts stops sched =
     ([Errorf MandatoryArgsNotProvided, UsageMsg], Some (Exit 255))"
  by (simp add: main_exit parse_wrong_count)


theorem wrong_argument_count_exits_255_witness:
  "length [''/img.tar''] \<noteq> 2 \<and>
   main policies0 statOk gf0 [] [''/img.tar''] [None] [None] [Loop, Loop, Handler] =
     ([Errorf MandatoryArgsNotProvided, UsageMsg], Some (Exit 255))"
  using wrong_argument_count_exits_255 [of "[''/img.tar'']" policies0 statOk gf0 "[]" "[None]" "[None]" "[Loop, Loop, Handler]"]
  by simp


text \<open>
  Claim C6. When the \<open>restart-policy\<close> flag was set and the value is none of the four
  constants, the process exits with status 255 inside \<open>parseCmdLnArgs\<close>, hence before
  \<open>runLoop\<close> calls \<open>configure\<close>: all it has done by then is to write error lines and
  possibly the usage message, and no \<open>Config\<close> is built.
\<close>

theorem invalid_restart_policy_exits_255:
  assumes "fl \<in> set visited" and "Name fl = ''restart-policy''"
    and "restartPolicy gf \<notin> {No rp, OnFailure rp, UnlessStopped rp, Always rp}"
  shows "\<exists>evs. parseCmdLnArgs rp stat gf visited args = (evs, Inl (Exit 255)) \<and>
           main rp stat gf visited args starts stops sched = (evs, Some (Exit 255)) \<and>
           list_all (\<lambda>e. e = UsageMsg \<or> (\<exists>m. e = Errorf m)) evs"
proof -
  have fe: "flag_error rp gf visited"
    unfolding flag_error_def using assms by blast
  have "\<exists>evs. parseCmdLnArgs rp stat gf visited args = (evs, Inl (Exit 255)) \<and>
           list_all (\<lambda>e. e = UsageMsg \<or> (\<exists>m. e = Errorf m)) evs"
  proof (cases rule: input_cases [where args = args and stat = stat])
    case 1
    then show ?thesis by (simp add: parse_wrong_count)
  next
    case 2
    then show ?thesis by (simp add: parse_bad_path)
  next
    case 3
    from flag_error_exits [OF fe] obtain m
      where "validateCmdLnFlags rp gf visited = ([Errorf m], Inl (Exit 255))"
      by blast
    with 3 show ?thesis by (simp add: parse_flags)
  qed
  then obtain evs where "parseCmdLnArgs rp stat gf visited args = (evs, Inl (Exit 255))"
    "list_all (\<lambda>e. e = UsageMsg \<or> (\<exists>m. e = Errorf m)) evs"
    by blast
  then show ?thesis
    using main_exit [of rp stat gf visited args evs "Exit 255" starts stops sched]
    by (intro exI [of _ evs]) simp
qed


theorem invalid_restart_policy_exits_255_witness:
  "policyFlag \<in> set [portFlag, policyFlag] \<and> Name policyFlag = ''restart-policy'' \<and>
   restartPolicy gf2 \<notin> {No policies0, OnFailure policies0, UnlessStopped policies0, Always policies0} \<and>
   main policies0 statOk gf2 [portFlag, policyFlag] [''/img.tar'', ''img''] [] [] [Loop, Loop] =
     ([Errorf (InvalidRestartPolicy ''sometimes'' ''restart-policy'' ''Restart policy'')],
      Some (Exit 255))"
  using invalid_restart_policy_exits_255 [of policyFlag "[portFlag, policyFlag]" gf2 policies0 statOk "[''/img.tar'', ''img'']"
      "[]" "[]" "[Loop, Loop]"]
  by (simp add: main_def boot_def parseCmdLnArgs_def validateCmdLnArgsFlags_def
      validateCmdLnArgs_def validateCmdLnFlag_def statOk_def gf2_def gf0_def portFlag_def
      policyFlag_def policies0_def Contains_def)


text \<open>
  Claim C7, as stated, fails: for a port entry without a colon the process logs one error
  line and exits with 255, and \<open>usage()\<close> is not called.
\<close>

theorem flag_error_prints_no_usage_message:
  "main policies0 statOk gf1 [portFlag] [''/img.tar'', ''img''] [] [] [] =
     ([Errorf (InvalidFormat ''8080'' ''port'' ''[host_ip:]host_port:container_port'')],
      Some (Exit 255)) \<and>
   UsageMsg \<notin> set (fst (main policies0 statOk gf1 [portFlag] [''/img.tar'', ''img''] [] [] []))"
  by (simp add: main_def boot_def parseCmdLnArgs_def validateCmdLnArgsFlags_def
      validateCmdLnArgs_def validateCmdLnFlag_def statOk_def gf1_def gf0_def portFlag_def
      Contains_def)

text \<open>
  Claim C7, amended. Every input error makes the process exit at once with status 255.
  With a wrong number of positional arguments, or an image path that \<open>os.Stat\<close> cannot
  access, it logs an error line and prints the usage message. With a malformed flag value
  it logs a single error line, which carries the name and the usage string of the flag,
  and the usage message is not printed.
\<close>

theorem input_error_exits_255:
  assumes "length args \<noteq> 2 \<or> stat (args ! 0) \<noteq> None \<or> flag_error rp gf visited"
  shows "\<exists>evs. main rp stat gf visited args starts stops sched = (evs, Some (Exit 255)) \<and>
           (if length args \<noteq> 2 then evs = [Errorf MandatoryArgsNotProvided, UsageMsg]
            else if stat (args ! 0) \<noteq> None then
              \<exists>err. stat (args ! 0) = Some err \<and>
                    evs = [Errorf (ErrorAccessing (args ! 0) err), UsageMsg]
            else \<exists>fl \<in> set visited. \<exists>m. evs = [Errorf m] \<and> flag_msg gf fl m)"
proof (cases rule: input_cases [where args = args and stat = stat])
  case 1
  then show ?thesis by (simp add: main_exit parse_wrong_count)
next
  case 2
  then show ?thesis by (simp add: main_exit parse_bad_path)
next
  case 3
  with assms have "flag_error rp gf visited" by simp
  from flag_error_exits [OF this] obtain fl m
    where fl: "fl \<in> set visited" "flag_msg gf fl m"
      and v: "validateCmdLnFlags rp gf visited = ([Errorf m], Inl (Exit 255))"
    by blast
  from 3 v have "parseCmdLnArgs rp stat gf visited args = ([Errorf m], Inl (Exit 255))"
    by (simp add: parse_flags)
  then have "main rp stat gf visited args starts stops sched = ([Errorf m], Some (Exit 255))"
    by (rule main_exit)
  with 3 fl show ?thesis
    by (intro exI [of _ "[Errorf m]"]) auto
qed

theorem input_error_exits_255_witness:
  "flag_error policies0 gf1 [portFlag] \<and>
   main policies0 statOk gf1 [portFlag] [''/img.tar'', ''img''] [] [] [Loop] =
     ([Errorf (InvalidFormat ''8080'' ''port'' ''[host_ip:]host_port:container_port'')],
      Some (Exit 255))"
  using input_error_exits_255 [of "[''/img.tar'', ''img'']" statOk policies0 gf1 "[portFlag]" "[]" "[]" "[Loop]"]
  by (simp add: main_def boot_def parseCmdLnArgs_def validateCmdLnArgsFlags_def
      validateCmdLnArgs_def validateCmdLnFlag_def statOk_def gf1_def gf0_def portFlag_def
      Contains_def flag_error_def)


section \<open>Properties of the run loop and the signal handler\<close>

subsection \<open>After the stop flag is seen\<close>

lemma run_append: "run c (xs @ ys) s = run c ys (run c xs s)"
  by (induction xs arbitrary: s) simp_all

lemma run_exited: "loop_pc s = MainExit \<Longrightarrow> run c sched s = s"
  by (induction sched) (simp_all add: step_def)

lemma loop_step_seen:
  "stop_seen s \<Longrightarrow> stop_seen (loop_step c s)"
  by (cases "loop_pc s") (auto simp: stop_seen_def loop_step_def split: list.splits sum.splits)

lemma handler_step_seen:
  "stop_seen s \<Longrightarrow> stop_seen (handler_step c s)"
  by (cases "handler_pc s") (auto simp: stop_seen_def handler_step_def split: list.splits)

lemma deliver_seen:
  "stop_seen s \<Longrightarrow> stop_seen (deliver sig s)"
  by (simp add: stop_seen_def deliver_def)

lemma step_seen:
  "stop_seen s \<Longrightarrow> stop_seen (step c a s)"
  by (cases a) (simp_all add: step_def loop_step_seen handler_step_seen deliver_seen)

lemma loop_step_quiet:
  "stop_seen s \<Longrightarrow>
   \<exists>evs. trace (loop_step c s) = trace s @ evs \<and> filter isStart evs = [] \<and> filter isSleep evs = []"
  by (cases "loop_pc s")
     (auto simp: stop_seen_def loop_step_def split: list.splits option.splits sum.splits)

lemma handler_step_quiet:
  "\<exists>evs. trace (handler_step c s) = trace s @ evs \<and> filter isStart evs = [] \<and> filter isSleep evs = []"
  by (cases "handler_pc s") (auto simp: handler_step_def split: list.splits option.splits)

lemma step_quiet:
  "stop_seen s \<Longrightarrow>
   \<exists>evs. trace (step c a s) = trace s @ evs \<and> filter isStart evs = [] \<and> filter isSleep evs = []"
  using loop_step_quiet [of s c] handler_step_quiet [of c s]
  by (cases a) (auto simp: step_def deliver_def)

lemma run_quiet:
  "stop_seen s \<Longrightarrow>
   \<exists>evs. trace (run c sched s) = trace s @ evs \<and> filter isStart evs = [] \<and> filter isSleep evs = []"
proof (induction sched arbitrary: s)
  case Nil
  then show ?case by simp
next
  case (Cons a sched)
  from step_quiet [OF Cons.prems, of c a] obtain e1 where
    e1: "trace (step c a s) = trace s @ e1" "filter isStart e1 = []" "filter isSleep e1 = []"
    by blast
  from Cons.IH [OF step_seen [OF Cons.prems], of c a] obtain e2 where
    e2: "trace (run c sched (step c a s)) = trace (step c a s) @ e2"
      "filter isStart e2 = []" "filter isSleep e2 = []"
    by blast
  show ?case
    using e1 e2 by (intro exI [of _ "e1 @ e2"]) simp
qed

lemma step_leaving:
  "leaving s \<Longrightarrow> leaving (step c a s)"
  by (cases a; cases "loop_pc s"; cases "handler_pc s")
     (auto simp: step_def leaving_def stop_seen_def loop_step_def handler_step_def deliver_def
           split: list.splits sum.splits)

lemma step_exit_dist:
  "leaving s \<Longrightarrow>
   exit_dist (loop_pc (step c a s)) \<le> exit_dist (loop_pc s) - (if a = Loop then 1 else 0)"
  by (cases a; cases "loop_pc s"; cases "handler_pc s")
     (auto simp: step_def leaving_def stop_seen_def loop_step_def handler_step_def deliver_def
           split: list.splits sum.splits)

lemma run_exit_dist:
  "leaving s \<Longrightarrow>
   exit_dist (loop_pc (run c sched s)) \<le> exit_dist (loop_pc s) - count_list sched Loop"
proof (induction sched arbitrary: s)
  case Nil
  then show ?case by simp
next
  case (Cons a sched)
  have "exit_dist (loop_pc (run c sched (step c a s)))
          \<le> exit_dist (loop_pc (step c a s)) - count_list sched Loop"
    by (rule Cons.IH [OF step_leaving [OF Cons.prems]])
  also have "\<dots> \<le> (exit_dist (loop_pc s) - (if a = Loop then 1 else 0)) - count_list sched Loop"
    using step_exit_dist [OF Cons.prems, of c a] by (rule diff_le_mono)
  finally show ?case
    by (cases "a = Loop") auto
qed

lemma exit_dist_0: "exit_dist pc = 0 \<Longrightarrow> pc \<in> {Returned, MainExit}"
  by (cases pc) simp_all

lemma exit_dist_le_3: "exit_dist pc \<le> 3"
  by (cases pc) simp_all

text \<open>
  The exception: a loop that has read the flag as unset and is about to call \<open>Start\<close>
  makes that call, whatever the flag has become in the meantime.
\<close>

lemma stale_reading_starts_once_more:
  "loop_pc s = CallStart \<Longrightarrow> cfg s = Some conf \<Longrightarrow>
   trace (loop_step c s) = trace s @ [StartCall (imgPath c) (img c) conf]"
  by (simp add: loop_step_def)

text \<open>
  Claim C1. Take any state in which \<open>stopMonitoring\<close> is set and visible to the loop, that
  is, the loop is not just between a read of the flag that still gave \<open>false\<close> and the
  call it decided on. Then under every schedule the program makes no further call of
  \<open>Start\<close> and begins no further backoff sleep. Moreover, unless it is inside a call of
  \<open>Start\<close> that never returns, the loop has left after at most three steps of its own:
  from the inner \<open>if\<close> it goes to the loop condition and out, without sleeping. (A sleep
  that had begun before the flag was set is not cut short; the loop leaves when it ends.)
\<close>

theorem stop_flag_ends_loop:
  assumes "stopMonitoring s" and "loop_pc s \<noteq> CallStart" and "loop_pc s \<noteq> CallSleep"
  shows "(\<exists>evs. trace (run c sched s) = trace s @ evs \<and>
                filter isStart evs = [] \<and> filter isSleep evs = []) \<and>
         ((loop_pc s = InStart \<longrightarrow> startResults s \<noteq> []) \<and> 3 \<le> count_list sched Loop \<longrightarrow>
            loop_pc (run c sched s) \<in> {Returned, MainExit})"
proof -
  have seen: "stop_seen s"
    using assms by (simp add: stop_seen_def)
  have "loop_pc (run c sched s) \<in> {Returned, MainExit}"
    if "loop_pc s = InStart \<longrightarrow> startResults s \<noteq> []" and "3 \<le> count_list sched Loop"
  proof -
    have "leaving s"
      using seen that(1) by (simp add: leaving_def)
    from run_exit_dist [OF this, of c sched] exit_dist_le_3 [of "loop_pc s"] that(2)
    have "exit_dist (loop_pc (run c sched s)) = 0"
      by simp
    then show ?thesis
      by (rule exit_dist_0)
  qed
  then show ?thesis
    using run_quiet [OF seen, of c sched] by blast
qed

theorem stop_flag_ends_loop_witness:
  "stopMonitoring stopping \<and> loop_pc stopping \<noteq> CallStart \<and> loop_pc stopping \<noteq> CallSleep \<and>
   startResults stopping \<noteq> [] \<and> 3 \<le> count_list [Handler, Loop, Loop, Handler, Loop] Loop \<and>
   trace (run c0 [Handler, Loop, Loop, Handler, Loop] stopping) =
     trace stopping @ [StopCall ''img'' ''web'' False, Infof (StoppingMonitoring ''img'')] \<and>
   loop_pc (run c0 [Handler, Loop, Loop, Handler, Loop] stopping) = Returned"
  using stop_flag_ends_loop [where s = stopping and c = c0
      and sched = "[Handler, Loop, Loop, Handler, Loop]"]
  by (simp add: stopping_def c0_def gf0_def step_def loop_step_def handler_step_def)

subsection \<open>The signal handler\<close>

lemma loop_step_handler:
  "handler_events (trace (loop_step c s)) = handler_events (trace s) \<and>
   handler_pc (loop_step c s) = handler_pc s \<and> sigChan (loop_step c s) = sigChan s \<and>
   stopMonitoring (loop_step c s) = stopMonitoring s"
  by (cases "loop_pc s")
     (auto simp: loop_step_def handler_events_def split: list.splits option.splits sum.splits)

lemma loop_step_handler_inv:
  "handler_inv c s \<Longrightarrow> handler_inv c (loop_step c s)"
  by (simp add: handler_inv_def loop_step_handler)

lemma handler_step_handler_inv:
  "handler_inv c s \<Longrightarrow> handler_inv c (handler_step c s)"
  by (cases "handler_pc s")
     (auto simp: handler_inv_def handler_step_def handler_events_def
           split: list.splits option.splits)

lemma deliver_handler_inv:
  "handler_inv c s \<Longrightarrow> handler_inv c (deliver sig s)"
  by (simp add: handler_inv_def deliver_def)

lemma step_handler_inv:
  "handler_inv c s \<Longrightarrow> handler_inv c (step c a s)"
  by (cases a)
     (simp_all add: step_def loop_step_handler_inv handler_step_handler_inv deliver_handler_inv)

lemma run_handler_inv:
  "handler_inv c s \<Longrightarrow> handler_inv c (run c sched s)"
  by (induction sched arbitrary: s) (simp_all add: step_handler_inv)

lemma loop_step_status_inv:
  "status_inv s \<Longrightarrow> status_inv (loop_step c s)"
  by (cases "loop_pc s")
     (auto simp: status_inv_def loop_step_def split: list.splits option.splits sum.splits)

lemma handler_step_status_inv:
  "status_inv s \<Longrightarrow> status_inv (handler_step c s)"
  by (cases "handler_pc s")
     (auto simp: status_inv_def handler_step_def split: list.splits)

lemma step_status_inv:
  "status_inv s \<Longrightarrow> status_inv (step c a s)"
  by (cases a)
     (simp_all add: step_def loop_step_status_inv handler_step_status_inv,
      simp add: status_inv_def deliver_def)

lemma run_status_inv:
  "status_inv s \<Longrightarrow> status_inv (run c sched s)"
  by (induction sched arbitrary: s) (simp_all add: step_status_inv)

lemma step_armed:
  "armed s \<Longrightarrow> armed (step c a s)"
proof (cases a)
  case Loop
  assume "armed s"
  then show ?thesis
    using Loop loop_step_handler [of c s] by (simp add: step_def armed_def)
next
  case Handler
  assume "armed s"
  then show ?thesis
    using Handler
    by (cases "handler_pc s") (auto simp: step_def armed_def handler_step_def split: list.splits)
next
  case (Deliver sig)
  assume "armed s"
  then show ?thesis
    using Deliver by (auto simp: step_def armed_def deliver_def)
qed

lemma step_handler_rank:
  "armed s \<Longrightarrow> loop_pc s \<noteq> MainExit \<Longrightarrow>
   min 3 (handler_rank (handler_pc s) + (if a = Handler then 1 else 0))
     \<le> handler_rank (handler_pc (step c a s))"
proof (cases a)
  case Loop
  then show ?thesis
    using loop_step_handler [of c s] by (simp add: step_def)
next
  case Handler
  assume "armed s" "loop_pc s \<noteq> MainExit"
  then show ?thesis
    using Handler
    by (cases "handler_pc s") (auto simp: step_def armed_def handler_step_def split: list.splits)
next
  case (Deliver sig)
  then show ?thesis
    by (simp add: step_def deliver_def)
qed

lemma run_handler_rank:
  "armed s \<Longrightarrow> loop_pc (run c sched s) \<noteq> MainExit \<Longrightarrow>
   min 3 (handler_rank (handler_pc s) + count_list sched Handler)
     \<le> handler_rank (handler_pc (run c sched s))"
proof (induction sched arbitrary: s)
  case Nil
  then show ?case by simp
next
  case (Cons a sched)
  have alive: "loop_pc s \<noteq> MainExit"
    using Cons.prems(2) run_exited [of s c "a # sched"] by auto
  have "min 3 (handler_rank (handler_pc (step c a s)) + count_list sched Handler)
          \<le> handler_rank (handler_pc (run c sched (step c a s)))"
    using Cons.prems by (intro Cons.IH step_armed) simp_all
  moreover have "min 3 (handler_rank (handler_pc s) + (if a = Handler then 1 else 0))
          \<le> handler_rank (handler_pc (step c a s))"
    using Cons.prems(1) alive by (rule step_handler_rank)
  ultimately show ?case
    by (cases "a = Handler") auto
qed

lemma deliver_armed:
  "armed (step c (Deliver sig) s) \<or> loop_pc s = MainExit"
  by (auto simp: step_def deliver_def armed_def)

lemma handler_rank_3:
  "3 \<le> handler_rank pc \<Longrightarrow>
   handler_done c pc = [SetStopMonitoring, StopCall (img c) (ctrName (flags c)) False]"
  by (cases pc) simp_all

lemma handler_done_cases:
  "handler_done c pc \<in> {[], [SetStopMonitoring],
      [SetStopMonitoring, StopCall (img c) (ctrName (flags c)) False]}"
  by (cases pc) simp_all

lemma handler_done_empty:
  "(handler_done c pc \<noteq> []) = (2 \<le> handler_rank pc)"
  by (cases pc) simp_all

lemma run_signal_handled:
  assumes inv: "handler_inv c s"
    and alive: "loop_pc (run c (pre @ Deliver sig # post) s) \<noteq> MainExit"
    and three: "3 \<le> count_list post Handler"
  shows "stopMonitoring (run c (pre @ Deliver sig # post) s) \<and>
         handler_events (trace (run c (pre @ Deliver sig # post) s)) =
           [SetStopMonitoring, StopCall (img c) (ctrName (flags c)) False]"
proof -
  let ?s1 = "run c pre s"
  let ?s2 = "step c (Deliver sig) ?s1"
  have fin: "run c (pre @ Deliver sig # post) s = run c post ?s2"
    by (simp add: run_append)
  have "loop_pc ?s1 \<noteq> MainExit"
  proof
    assume "loop_pc ?s1 = MainExit"
    then have "run c (Deliver sig # post) ?s1 = ?s1"
      by (rule run_exited)
    with alive \<open>loop_pc ?s1 = MainExit\<close> show False
      by (simp add: run_append)
  qed
  then have "armed ?s2"
    using deliver_armed [of c sig ?s1] by simp
  moreover have "loop_pc (run c post ?s2) \<noteq> MainExit"
    using alive fin by simp
  ultimately have "min 3 (handler_rank (handler_pc ?s2) + count_list post Handler)
      \<le> handler_rank (handler_pc (run c post ?s2))"
    by (rule run_handler_rank)
  with three have r: "3 \<le> handler_rank (handler_pc (run c post ?s2))"
    by simp
  have "handler_inv c (run c post ?s2)"
    using run_handler_inv [OF inv, of "pre @ Deliver sig # post"] fin by simp
  then show ?thesis
    using r handler_rank_3 [OF r, of c] fin by (simp add: handler_inv_def)
qed

lemma validateCmdLnFlags_ok:
  "\<forall>fl \<in> set visited. validateCmdLnFlag rp gf fl = ([], Inr ()) \<Longrightarrow>
   validateCmdLnFlags rp gf visited = ([], Inr ())"
  by (induction visited) simp_all

lemma validateCmdLnFlags_cases:
  "validateCmdLnFlags rp gf visited = ([], Inr ()) \<or>
   (\<exists>m. validateCmdLnFlags rp gf visited = ([Errorf m], Inl (Exit 255)))"
proof (cases "\<forall>fl \<in> set visited. validateCmdLnFlag rp gf fl = ([], Inr ())")
  case True
  then show ?thesis by (simp add: validateCmdLnFlags_ok)
next
  case False
  then obtain fl where "fl \<in> set visited" "validateCmdLnFlag rp gf fl \<noteq> ([], Inr ())"
    by blast
  from validateCmdLnFlags_bad [OF this] show ?thesis
    by blast
qed

lemma parse_ok:
  assumes "parseCmdLnArgs rp stat gf visited args = (evs, Inr p)"
  shows "evs = [] \<and> p = (args ! 0, args ! 1) \<and> length args = 2"
proof (cases rule: input_cases [where args = args and stat = stat])
  case 1
  with assms show ?thesis by (simp add: parse_wrong_count)
next
  case 2
  with assms show ?thesis by (simp add: parse_bad_path)
next
  case 3
  from validateCmdLnFlags_cases [of rp gf visited] assms 3 show ?thesis
    by (auto simp: parse_flags)
qed

lemma boot_ok:
  assumes "boot rp stat gf visited args = (evs, Inr c)"
  shows "evs = [] \<and> imgPath c = args ! 0 \<and> img c = args ! 1 \<and> flags c = gf \<and>
         length args = 2"
proof -
  obtain evs0 r where p: "parseCmdLnArgs rp stat gf visited args = (evs0, r)"
    by (cases "parseCmdLnArgs rp stat gf visited args")
  with assms obtain q where r: "r = Inr q"
    by (cases r) (simp_all add: boot_def)
  from parse_ok [OF p [unfolded r]] have "evs0 = []" "q = (args ! 0, args ! 1)" "length args = 2"
    by simp_all
  with assms p r show ?thesis
    by (auto simp: boot_def)
qed

lemma main_running:
  "boot rp stat gf visited args = (evs, Inr c) \<Longrightarrow>
   main rp stat gf visited args starts stops sched =
     (trace (run c sched (init_state evs starts stops)),
      exitStatus (run c sched (init_state evs starts stops)))"
  by (simp add: main_def Let_def)

lemma init_handler_inv: "handler_inv c (init_state [] starts stops)"
  by (simp add: handler_inv_def init_state_def handler_events_def)

lemma init_status_inv: "status_inv (init_state evs starts stops)"
  by (simp add: status_inv_def init_state_def)

lemma run_status:
  "(exitStatus (run c sched (init_state evs starts stops)) = None) =
   (loop_pc (run c sched (init_state evs starts stops)) \<noteq> MainExit)"
  using run_status_inv [OF init_status_inv, of c sched evs starts stops]
  by (simp add: status_inv_def)

lemma boot0:
  "boot policies0 statOk gf0 [portFlag] args0 = ([], Inr c0)"
  by (simp add: boot_def parseCmdLnArgs_def validateCmdLnArgsFlags_def validateCmdLnArgs_def
      validateCmdLnFlag_def statOk_def gf0_def portFlag_def Contains_def args0_def c0_def)

lemma configure0: "configure (flags c0) = Inr cfg0"
  by (simp add: c0_def gf0_def configure_def addPort_def LastIndex_def Let_def slice_to_def
      slice_from_def cfg0_def)

lemma c0_simps: "imgPath c0 = ''/img.tar''" "img c0 = ''img''" "ctrName (flags c0) = ''web''"
  by (simp_all add: c0_def gf0_def)

text \<open>
  Claim C2, as stated, fails: \<open>main\<close> does not wait for the handler. Here \<open>Start\<close> has
  returned when the signal arrives; the handler receives it and sets the flag; the loop
  sees the flag at the inner \<open>if\<close> and at the loop condition, \<open>runLoop\<close> and \<open>main\<close>
  return, and the process is gone before the handler has called \<open>Stop\<close>. A signal was
  delivered and no stop request was issued.
\<close>

theorem main_returns_before_stop_request:
  "main policies0 statOk gf0 [portFlag] args0 [None] [None]
     [Loop, Loop, Loop, Loop, Deliver SIGTERM, Handler, Handler, Loop, Loop, Loop,
      Handler, Handler, Handler] =
   ([Infof (ConfigLine cfg0), StartCall ''/img.tar'' ''img'' cfg0,
     Infof (ReceivedStopSignal SIGTERM), SetStopMonitoring,
     Infof (StoppingMonitoring ''img'')],
    Some (Exit 0))"
  by (simp add: main_running [OF boot0] init_state_def step_def loop_step_def handler_step_def
      deliver_def configure0 c0_simps)

text \<open>
  Claim C2, amended. In every run of the program, whatever signals arrive and however
  often, the handler assigns the flag at most once and calls \<open>Stop\<close> at most once, the
  assignment comes first, the call is \<open>Stop(img, *ctrName, false)\<close>, and the variable
  \<open>stopMonitoring\<close> is true exactly from that assignment on. When a signal has been
  delivered and the handler has since taken three steps, the process still running, then
  the flag is true and both the assignment and the call have happened exactly once, also
  when further signals arrived in between.
\<close>

theorem signal_sets_flag_then_stops_at_most_once:
  assumes "boot rp stat gf visited args = (evs, Inr c)"
    and "s = run c sched (init_state evs starts stops)"
  shows "main rp stat gf visited args starts stops sched = (trace s, exitStatus s) \<and>
         handler_events (trace s)
           \<in> {[], [SetStopMonitoring],
               [SetStopMonitoring, StopCall (args ! 1) (ctrName gf) False]} \<and>
         stopMonitoring s = (handler_events (trace s) \<noteq> []) \<and>
         (sched = pre @ Deliver sig # post \<and> 3 \<le> count_list post Handler \<and>
          exitStatus s = None \<longrightarrow>
            stopMonitoring s \<and>
            handler_events (trace s) =
              [SetStopMonitoring, StopCall (args ! 1) (ctrName gf) False])"
proof -
  let ?s0 = "init_state evs starts stops"
  from boot_ok [OF assms(1)] have c: "img c = args ! 1" "flags c = gf" and evs: "evs = []"
    by simp_all
  have inv0: "handler_inv c ?s0"
    unfolding evs by (rule init_handler_inv)
  then have inv: "handler_inv c s"
    unfolding assms(2) by (rule run_handler_inv)
  have m: "main rp stat gf visited args starts stops sched = (trace s, exitStatus s)"
    unfolding assms(2) using assms(1) by (rule main_running)
  have a: "handler_events (trace s)
      \<in> {[], [SetStopMonitoring], [SetStopMonitoring, StopCall (args ! 1) (ctrName gf) False]}"
    using inv handler_done_cases [of c "handler_pc s"] c by (simp add: handler_inv_def)
  have f: "stopMonitoring s = (handler_events (trace s) \<noteq> [])"
    using inv handler_done_empty [of c "handler_pc s"] by (simp add: handler_inv_def)
  have b: "stopMonitoring s \<and>
      handler_events (trace s) = [SetStopMonitoring, StopCall (args ! 1) (ctrName gf) False]"
    if "sched = pre @ Deliver sig # post" "3 \<le> count_list post Handler" "exitStatus s = None"
  proof -
    have "loop_pc (run c (pre @ Deliver sig # post) ?s0) \<noteq> MainExit"
      using that(1,3) run_status [of c sched evs starts stops] by (simp add: assms(2))
    from run_signal_handled [OF inv0 this that(2)] show ?thesis
      using that(1) c by (simp add: assms(2))
  qed
  then have b': "sched = pre @ Deliver sig # post \<and> 3 \<le> count_list post Handler \<and>
      exitStatus s = None \<longrightarrow>
        stopMonitoring s \<and>
        handler_events (trace s) = [SetStopMonitoring, StopCall (args ! 1) (ctrName gf) False]"
    by (intro impI) (elim conjE)
  show ?thesis
    by (intro conjI m a f b')
qed

theorem signal_sets_flag_then_stops_at_most_once_witness:
  "boot policies0 statOk gf0 [portFlag] args0 = ([], Inr c0) \<and>
   [Loop, Loop, Loop, Deliver SIGTERM, Deliver SIGINT, Handler, Handler, Deliver SIGQUIT,
    Handler, Handler]
     = [Loop, Loop, Loop] @ Deliver SIGTERM #
         [Deliver SIGINT, Handler, Handler, Deliver SIGQUIT, Handler, Handler] \<and>
   3 \<le> count_list [Deliver SIGINT, Handler, Handler, Deliver SIGQUIT, Handler, Handler] Handler \<and>
   exitStatus (run c0
     [Loop, Loop, Loop, Deliver SIGTERM, Deliver SIGINT, Handler, Handler, Deliver SIGQUIT,
      Handler, Handler] (init_state [] [None] [None])) = None \<and>
   stopMonitoring (run c0
     [Loop, Loop, Loop, Deliver SIGTERM, Deliver SIGINT, Handler, Handler, Deliver SIGQUIT,
      Handler, Handler] (init_state [] [None] [None])) \<and>
   handler_events (trace (run c0
     [Loop, Loop, Loop, Deliver SIGTERM, Deliver SIGINT, Handler, Handler, Deliver SIGQUIT,
      Handler, Handler] (init_state [] [None] [None]))) =
     [SetStopMonitoring, StopCall ''img'' ''web'' False]"
proof -
  have running: "exitStatus (run c0
     [Loop, Loop, Loop, Deliver SIGTERM, Deliver SIGINT, Handler, Handler, Deliver SIGQUIT,
      Handler, Handler] (init_state [] [None] [None])) = None"
    by (simp add: init_state_def step_def loop_step_def handler_step_def deliver_def
        configure0 c0_simps)
  show ?thesis
    using signal_sets_flag_then_stops_at_most_once [OF boot0 refl,
        where sched = "[Loop, Loop, Loop, Deliver SIGTERM, Deliver SIGINT, Handler, Handler,
          Deliver SIGQUIT, Handler, Handler]"
        and pre = "[Loop, Loop, Loop]" and sig = SIGTERM
        and post = "[Deliver SIGINT, Handler, Handler, Deliver SIGQUIT, Handler, Handler]"
        and starts = "[None]" and stops = "[None]"]
      running boot0
    by (simp add: args0_def gf0_def)
qed

subsection \<open>Restarting\<close>



















end
